theory Spec2Isabelle
  imports Main
begin

section \<open>Messages, the chat session and the agent (core notebook)\<close>

text \<open>
  A message of the conversation history carries a role tag and a content, which may be
  absent (\<open>msg.content or ""\<close> in \<open>_format_history\<close>). The chat session is an object of
  the completion library: the agent reads and writes its system prompt \<open>sp\<close> and its
  history \<open>h\<close>. The library's constructor always creates the attribute \<open>h\<close>, so the
  \<open>hasattr(self.chat, 'h')\<close> test of the source is true and is not modelled.
\<close>

record msg =
  msg_role :: string
  msg_content :: "string option"

record chat =
  chat_model :: string
  chat_tools :: "string list"
  sp :: string
  h :: "msg list"

text \<open>
  The dataclass \<open>Agent\<close>. A tool is represented by its name. \<open>system\<close> is
  \<open>Optional[str]\<close>; \<open>memory_size\<close> is tested against \<open>None\<close> by the source, so it is
  optional as well.
\<close>

record agent =
  role :: string
  model :: string
  tools :: "string list"
  system :: "string option"
  memory_size :: "int option"
  chat :: chat

datatype error =
    ValueError string "string list"
  | ToolLoopError string

text \<open>
  Modelled from the spec: the constructor \<open>Chat(model, tools=tools)\<close> of the completion
  library, which is not part of the repository. It opens a session bound to the model
  and the tools, with an empty system prompt and an empty history.
\<close>

definition Chat :: "string \<Rightarrow> string list \<Rightarrow> chat" where
  "Chat m ts = \<lparr>chat_model = m, chat_tools = ts, sp = [], h = []\<rparr>"

text \<open>Python's \<open>a or b\<close> on an optional string: \<open>None\<close> and the empty string are falsy.\<close>

definition str_or :: "string option \<Rightarrow> string \<Rightarrow> string" where
  "str_or a b = (case a of None \<Rightarrow> b | Some s \<Rightarrow> if s = [] then b else s)"

text \<open>
  \<open>Agent.__post_init__\<close>, run by the dataclass constructor. The registry \<open>models\<close> is a
  global of the completion library and is taken as a parameter. The \<open>ValueError\<close>
  carries the two values its message is formatted from.
\<close>

definition Agent ::
  "string list \<Rightarrow> string \<Rightarrow> string \<Rightarrow> string list \<Rightarrow> string option \<Rightarrow> int option \<Rightarrow> error + agent"
where
  "Agent models r m ts sys ms =
     (if m \<notin> set models then Inl (ValueError m models)
      else Inr \<lparr>role = r, model = m, tools = ts, system = sys, memory_size = ms,
                chat = (Chat m ts)\<lparr>sp := str_or sys (''You are a '' @ r @ ''.'')\<rparr>\<rparr>)"

subsection \<open>Pruning the history\<close>

definition is_system :: "msg \<Rightarrow> bool" where
  "is_system m = (msg_role m = ''system'')"

definition not_system :: "msg \<Rightarrow> bool" where
  "not_system m = (msg_role m \<noteq> ''system'')"

text \<open>
  Python's slice \<open>xs[i:]\<close>: a negative start counts from the end, and a start before
  the beginning is clamped to it.
\<close>

definition slice_from :: "int \<Rightarrow> 'a list \<Rightarrow> 'a list" where
  "slice_from i xs =
     (if i < 0 then drop (nat (max 0 (int (length xs) + i))) xs else drop (nat i) xs)"

definition prune_history :: "agent \<Rightarrow> agent" where
  "prune_history a =
     (case memory_size a of
        None \<Rightarrow> a
      | Some n \<Rightarrow>
          if n \<le> 0 then a
          else if int (length (h (chat a))) > n + 1 then
            let system_msgs = filter is_system (h (chat a));
                other_msgs = slice_from (- n) (filter not_system (h (chat a)))
            in a\<lparr>chat := (chat a)\<lparr>h := system_msgs @ other_msgs\<rparr>\<rparr>
          else a)"

text \<open>
  The trim policy in the words of the specification, for a positive bound: all system
  messages, followed by the last \<open>n\<close> of the other messages.
\<close>

definition last_n :: "nat \<Rightarrow> 'a list \<Rightarrow> 'a list" where
  "last_n n xs = rev (take n (rev xs))"

definition trim_spec :: "nat \<Rightarrow> msg list \<Rightarrow> msg list" where
  "trim_spec n ms = filter is_system ms @ last_n n (filter not_system ms)"

subsection \<open>Running a turn\<close>

text \<open>
  Modelled from the spec: the completion library's \<open>toolloop\<close> and \<open>contents\<close>, which
  are not part of the repository. A response is represented by the text that
  \<open>contents\<close> extracts from it. The tool loop is a parameter: given the session, the
  prompt, the step limit, the pass-through options and the state \<open>'w\<close> of the outside
  world (the model service), it either raises or returns a response, and in both cases
  leaves a session and a world behind.
\<close>

datatype response = Response (contents: string)

type_synonym kwargs = "(string \<times> string) list"

type_synonym 'w toolloop =
  "chat \<Rightarrow> string \<Rightarrow> int \<Rightarrow> kwargs \<Rightarrow> 'w \<Rightarrow> (error + response) \<times> chat \<times> 'w"

text \<open>
  \<open>Agent.run_with_tools\<close>: prune, then hand over to the tool loop. An exception of the
  tool loop passes through; the pruning and whatever the tool loop did to the session
  before raising stay in place.
\<close>

definition run_with_tools ::
  "'w toolloop \<Rightarrow> agent \<Rightarrow> string \<Rightarrow> int \<Rightarrow> kwargs \<Rightarrow> 'w \<Rightarrow> (error + string) \<times> agent \<times> 'w"
where
  "run_with_tools toolloop a prompt max_steps kw w =
     (let a1 = prune_history a in
      case toolloop (chat a1) prompt max_steps kw w of
        (Inl e, c', w') \<Rightarrow> (Inl e, a1\<lparr>chat := c'\<rparr>, w')
      | (Inr response, c', w') \<Rightarrow> (Inr (contents response), a1\<lparr>chat := c'\<rparr>, w'))"

text \<open>Two tool loops to run the definitions on: one answers, one raises on request.\<close>

definition user_msg :: "string \<Rightarrow> msg" where
  "user_msg p = \<lparr>msg_role = ''user'', msg_content = Some p\<rparr>"

definition assistant_msg :: "string \<Rightarrow> msg" where
  "assistant_msg p = \<lparr>msg_role = ''assistant'', msg_content = Some p\<rparr>"

definition system_msg :: "string \<Rightarrow> msg" where
  "system_msg p = \<lparr>msg_role = ''system'', msg_content = Some p\<rparr>"

definition echo_toolloop :: "unit toolloop" where
  "echo_toolloop c prompt max_steps kw w =
     (Inr (Response (''re: '' @ prompt)),
      c\<lparr>h := h c @ [user_msg prompt, assistant_msg (''re: '' @ prompt)]\<rparr>, w)"

definition moody_toolloop :: "unit toolloop" where
  "moody_toolloop c prompt max_steps kw w =
     (if sp c = ''fail''
      then (Inl (ToolLoopError prompt), c\<lparr>h := h c @ [user_msg prompt]\<rparr>, w)
      else echo_toolloop c prompt max_steps kw w)"

text \<open>An agent in a given state of its history, and a history with interleaved system messages.\<close>

definition demo_agent :: "int option \<Rightarrow> msg list \<Rightarrow> agent" where
  "demo_agent ms hs =
     \<lparr>role = ''tester'', model = ''gpt-4o'', tools = [], system = None, memory_size = ms,
      chat = (Chat ''gpt-4o'' [])\<lparr>sp := ''You are a tester.'', h := hs\<rparr>\<rparr>"

definition demo_history :: "msg list" where
  "demo_history =
     [user_msg ''q1'', system_msg ''s1'', assistant_msg ''a1'', user_msg ''q2'',
      system_msg ''s2'', assistant_msg ''a2'']"

section \<open>The chain (chain notebook)\<close>

text \<open>
  A chain holds references to agent objects, and running it mutates those objects, so
  the agents live in a store and the chain lists their addresses. An entry of \<open>steps\<close>
  is the dictionary \<open>dict(agent=a, input=curr_input, output=result)\<close>; its keys take
  the prefix \<open>entry_\<close> here.
\<close>

type_synonym ref = nat

type_synonym store = "ref \<Rightarrow> agent"

record step =
  entry_agent :: ref
  entry_input :: string
  entry_output :: string

record chain =
  name :: string
  agents :: "ref list"
  steps :: "step list"
  input_type :: string
  output_type :: string
  validators :: "(string \<Rightarrow> bool) list"
  history :: "string list"

text \<open>The dataclass constructor with \<open>__post_init__\<close>, which adds an empty \<open>history\<close>.\<close>

definition Chain ::
  "string \<Rightarrow> ref list \<Rightarrow> step list \<Rightarrow> string \<Rightarrow> string \<Rightarrow> (string \<Rightarrow> bool) list \<Rightarrow> chain"
where
  "Chain nm ags sts ity oty vs =
     \<lparr>name = nm, agents = ags, steps = sts, input_type = ity, output_type = oty,
      validators = vs, history = []\<rparr>"

definition validate :: "chain \<Rightarrow> string \<Rightarrow> nat \<Rightarrow> bool" where
  "validate c step_output step_num =
     (let results = map (\<lambda>v. v step_output) (validators c) in list_all id results)"

text \<open>
  \<open>Chain.__call__\<close>: the loop over the agents, with the current \<open>result\<close>, the list
  \<open>steps\<close>, the store and the world as loop state. An exception leaves the loop with
  everything done so far in place.
\<close>

fun chain_loop ::
  "'w toolloop \<Rightarrow> ref list \<Rightarrow> string \<Rightarrow> step list \<Rightarrow> store \<Rightarrow> 'w
     \<Rightarrow> (error + string) \<times> step list \<times> store \<times> 'w"
where
  "chain_loop toolloop [] result sts s w = (Inr result, sts, s, w)"
| "chain_loop toolloop (a # as) result sts s w =
     (case run_with_tools toolloop (s a) result 5 [] w of
        (Inl e, a', w') \<Rightarrow> (Inl e, sts, s(a := a'), w')
      | (Inr out, a', w') \<Rightarrow>
          chain_loop toolloop as out
            (sts @ [\<lparr>entry_agent = a, entry_input = result, entry_output = out\<rparr>]) (s(a := a')) w')"

definition chain_call ::
  "'w toolloop \<Rightarrow> chain \<Rightarrow> string \<Rightarrow> store \<Rightarrow> 'w \<Rightarrow> (error + string) \<times> chain \<times> store \<times> 'w"
where
  "chain_call toolloop c x s w =
     (case chain_loop toolloop (agents c) x (steps c) s w of
        (r, sts, s', w') \<Rightarrow> (r, c\<lparr>steps := sts\<rparr>, s', w'))"

text \<open>
  The entries that one run appends are linked: the first takes the input of the run, each
  next one the output of the one before, and the last output is the result.
\<close>

fun linked :: "string \<Rightarrow> step list \<Rightarrow> string \<Rightarrow> bool" where
  "linked x [] r = (r = x)"
| "linked x (e # es) r = (entry_input e = x \<and> linked (entry_output e) es r)"

text \<open>A store to run chains on: the agent at address 1 has the prompt that makes
  \<open>moody_toolloop\<close> raise, every other address holds a plain agent.\<close>

definition failing_agent :: agent where
  "failing_agent =
     (demo_agent (Some 10) [])\<lparr>chat := (chat (demo_agent (Some 10) []))\<lparr>sp := ''fail''\<rparr>\<rparr>"

definition demo_store :: store where
  "demo_store = (\<lambda>r. demo_agent (Some 10) [])(Suc 0 := failing_agent)"

definition non_empty :: "string \<Rightarrow> bool" where
  "non_empty out = (out \<noteq> [])"

definition short :: "string \<Rightarrow> bool" where
  "short out = (length out < 5)"

subsection \<open>Extracting an XML fragment\<close>












section \<open>Properties of the pruning\<close>

lemma not_system_iff: "not_system m \<longleftrightarrow> \<not> is_system m"
  by (simp add: not_system_def is_system_def)

lemma slice_from_neg: "0 < n \<Longrightarrow> slice_from (- n) xs = drop (length xs - nat n) xs"
proof -
  assume pos: "0 < n"
  have "nat (max 0 (int (length xs) - n)) = length xs - nat n"
    by (simp add: max_def nat_diff_distrib' pos less_imp_le)
  with pos show ?thesis by (simp add: slice_from_def)
qed

lemma last_n_drop: "last_n n xs = drop (length xs - n) xs"
  by (simp add: last_n_def rev_take)

lemma filter_system_others: "filter is_system (filter not_system ms) = []"
  by (induction ms) (simp_all add: not_system_iff)

lemma filter_others_system: "filter not_system (filter is_system ms) = []"
  by (induction ms) (simp_all add: not_system_iff)

lemma filter_system_trim:
  "filter is_system (filter is_system ms @ drop k (filter not_system ms)) = filter is_system ms"
proof -
  have "filter is_system (drop k (filter not_system ms)) = []"
    by (metis filter_system_others append_take_drop_id filter_append append_is_Nil_conv)
  then show ?thesis by simp
qed

lemma filter_others_trim:
  "filter not_system (filter is_system ms @ drop k (filter not_system ms))
     = drop k (filter not_system ms)"
proof -
  have "\<forall>m \<in> set (drop k (filter not_system ms)). not_system m"
    by (auto dest: in_set_dropD)
  then have "filter not_system (drop k (filter not_system ms)) = drop k (filter not_system ms)"
    by (simp only: filter_True)
  then show ?thesis by (simp only: filter_append filter_others_system append_Nil)
qed

lemma prune_history_pos:
  assumes "memory_size a = Some n" and "0 < n"
  shows "h (chat (prune_history a)) =
           (if int (length (h (chat a))) > n + 1
            then filter is_system (h (chat a))
                   @ drop (length (filter not_system (h (chat a))) - nat n)
                       (filter not_system (h (chat a)))
            else h (chat a))"
  using assms by (simp add: prune_history_def Let_def slice_from_neg)

lemma last_n_suffix: "\<exists>older. xs = older @ last_n n xs"
  by (metis last_n_drop append_take_drop_id)

lemma length_last_n: "length (last_n n xs) = min n (length xs)"
  by (simp add: last_n_drop)

lemma prune_history_fired:
  assumes "memory_size a = Some n" and "0 < n" and "n + 1 < int (length (h (chat a)))"
  shows "prune_history a = a\<lparr>chat := (chat a)\<lparr>h := trim_spec (nat n) (h (chat a))\<rparr>\<rparr>"
  using assms by (simp add: prune_history_def Let_def slice_from_neg trim_spec_def last_n_drop)

lemma filter_system_trim_spec: "filter is_system (trim_spec k ms) = filter is_system ms"
  by (simp only: trim_spec_def last_n_drop filter_system_trim)

lemma filter_others_trim_spec: "filter not_system (trim_spec k ms) = last_n k (filter not_system ms)"
  by (simp only: trim_spec_def last_n_drop filter_others_trim)

lemma trim_spec_idem: "trim_spec k (trim_spec k ms) = trim_spec k ms"
proof -
  have twice: "last_n k (last_n k (filter not_system ms)) = last_n k (filter not_system ms)"
    by (simp add: last_n_drop)
  have "trim_spec k (trim_spec k ms)
          = filter is_system (trim_spec k ms) @ last_n k (filter not_system (trim_spec k ms))"
    by (simp only: trim_spec_def)
  also have "\<dots> = filter is_system ms @ last_n k (last_n k (filter not_system ms))"
    by (simp only: filter_system_trim_spec filter_others_trim_spec)
  also have "\<dots> = trim_spec k ms"
    by (simp only: twice trim_spec_def)
  finally show ?thesis .
qed

text \<open>
  Claim C2. The trim does nothing when \<open>memory_size\<close> is unset or not positive, and
  nothing when the history has at most \<open>memory_size + 1\<close> messages. Otherwise the new
  history is the one the specification describes: every system message, then the last
  \<open>memory_size\<close> other messages. Each of the two groups keeps its order: the system
  messages of the result are those of the old history, and the other messages of the
  result are a suffix, of length \<open>min memory_size\<close> (their number), of the old ones.
\<close>

theorem prune_history_policy:
  "(memory_size a = None \<longrightarrow> prune_history a = a) \<and>
   (memory_size a = Some n \<and> n \<le> 0 \<longrightarrow> prune_history a = a) \<and>
   (memory_size a = Some n \<and> 0 < n \<and> int (length (h (chat a))) \<le> n + 1
      \<longrightarrow> prune_history a = a) \<and>
   (memory_size a = Some n \<and> 0 < n \<and> n + 1 < int (length (h (chat a))) \<longrightarrow>
      prune_history a = a\<lparr>chat := (chat a)\<lparr>h := trim_spec (nat n) (h (chat a))\<rparr>\<rparr> \<and>
      filter is_system (h (chat (prune_history a))) = filter is_system (h (chat a)) \<and>
      (\<exists>older. filter not_system (h (chat a))
                 = older @ filter not_system (h (chat (prune_history a)))) \<and>
      length (filter not_system (h (chat (prune_history a))))
        = min (nat n) (length (filter not_system (h (chat a)))))"
proof (intro conjI impI)
  assume "memory_size a = None"
  then show "prune_history a = a" by (simp add: prune_history_def)
next
  assume "memory_size a = Some n \<and> n \<le> 0"
  then show "prune_history a = a" by (simp add: prune_history_def)
next
  assume "memory_size a = Some n \<and> 0 < n \<and> int (length (h (chat a))) \<le> n + 1"
  then show "prune_history a = a" by (simp add: prune_history_def)
next
  assume fired: "memory_size a = Some n \<and> 0 < n \<and> n + 1 < int (length (h (chat a)))"
  then show eq: "prune_history a = a\<lparr>chat := (chat a)\<lparr>h := trim_spec (nat n) (h (chat a))\<rparr>\<rparr>"
    by (simp add: prune_history_fired)
  then have hist: "h (chat (prune_history a)) = trim_spec (nat n) (h (chat a))"
    by simp
  show "filter is_system (h (chat (prune_history a))) = filter is_system (h (chat a))"
    by (simp only: hist filter_system_trim_spec)
  show "\<exists>older. filter not_system (h (chat a))
                 = older @ filter not_system (h (chat (prune_history a)))"
    by (simp only: hist filter_others_trim_spec last_n_suffix)
  show "length (filter not_system (h (chat (prune_history a))))
        = min (nat n) (length (filter not_system (h (chat a))))"
    by (simp only: hist filter_others_trim_spec length_last_n)
qed

theorem prune_history_policy_witness:
  "prune_history (demo_agent None demo_history) = demo_agent None demo_history \<and>
   prune_history (demo_agent (Some 0) demo_history) = demo_agent (Some 0) demo_history \<and>
   prune_history (demo_agent (Some 5) demo_history) = demo_agent (Some 5) demo_history \<and>
   memory_size (demo_agent (Some 2) demo_history) = Some 2 \<and>
   2 + 1 < int (length (h (chat (demo_agent (Some 2) demo_history)))) \<and>
   h (chat (prune_history (demo_agent (Some 2) demo_history)))
     = [system_msg ''s1'', system_msg ''s2'', user_msg ''q2'', assistant_msg ''a2'']"
  using prune_history_policy [of "demo_agent None demo_history" 0]
    prune_history_policy [of "demo_agent (Some 0) demo_history" 0]
    prune_history_policy [of "demo_agent (Some 5) demo_history" 5]
    prune_history_policy [of "demo_agent (Some 2) demo_history" 2]
  by (simp add: demo_agent_def demo_history_def Chat_def trim_spec_def last_n_def
      is_system_def not_system_def user_msg_def system_msg_def assistant_msg_def)

text \<open>
  Claim C9. Pruning twice is pruning once, for every agent state and every value of
  \<open>memory_size\<close>.
\<close>

theorem prune_history_idempotent: "prune_history (prune_history a) = prune_history a"
proof (cases "memory_size a")
  case None
  then show ?thesis by (simp add: prune_history_def)
next
  case (Some n)
  show ?thesis
  proof (cases "0 < n \<and> n + 1 < int (length (h (chat a)))")
    case False
    with Some have "prune_history a = a" by (auto simp add: prune_history_def)
    then show ?thesis by simp
  next
    case True
    let ?a' = "a\<lparr>chat := (chat a)\<lparr>h := trim_spec (nat n) (h (chat a))\<rparr>\<rparr>"
    from True Some have once: "prune_history a = ?a'" by (simp add: prune_history_fired)
    have ms: "memory_size ?a' = Some n" using Some by simp
    show ?thesis
    proof (cases "n + 1 < int (length (h (chat ?a')))")
      case False
      with ms True have "prune_history ?a' = ?a'" by (simp add: prune_history_def)
      with once show ?thesis by simp
    next
      case again: True
      with ms True have "prune_history ?a' =
          ?a'\<lparr>chat := (chat ?a')\<lparr>h := trim_spec (nat n) (h (chat ?a'))\<rparr>\<rparr>"
        by (simp only: prune_history_fired)
      also have "\<dots> = ?a'" by (simp add: trim_spec_idem)
      finally show ?thesis using once by simp
    qed
  qed
qed

lemmas demo_defs = demo_agent_def demo_history_def Chat_def user_msg_def system_msg_def
  assistant_msg_def is_system_def not_system_def

section \<open>The history after a turn\<close>

text \<open>
  The bound of claim C1 does not hold after a turn, because \<open>run_with_tools\<close> prunes
  before the tool loop runs and not after it. With \<open>memory_size = 1\<close> and an empty
  history, one turn of a tool loop that appends the prompt and its answer leaves two
  messages that are not system messages. A history of at most \<open>memory_size + 1\<close>
  messages is not reordered either: a system message stays behind the user message that
  precedes it.
\<close>

theorem turn_bound_counterexample:
  "memory_size (demo_agent (Some 1) []) = Some 1 \<and>
   fst (run_with_tools echo_toolloop (demo_agent (Some 1) []) ''hi'' 5 [] ()) = Inr ''re: hi'' \<and>
   length (filter not_system
     (h (chat (fst (snd (run_with_tools echo_toolloop (demo_agent (Some 1) []) ''hi'' 5 [] ()))))))
     = 2 \<and>
   h (chat (fst (snd (run_with_tools echo_toolloop
       (demo_agent (Some 5) [user_msg ''q'', system_msg ''s'']) ''hi'' 5 [] ()))))
     = [user_msg ''q'', system_msg ''s'', user_msg ''hi'', assistant_msg ''re: hi'']"
  by (simp add: run_with_tools_def prune_history_def echo_toolloop_def demo_defs)

text \<open>
  Claim C1, as the code has it. For \<open>memory_size = n > 0\<close>, the history that a turn
  hands to the tool loop holds every system message of the stored history, in the
  original order, and at most \<open>n + 1\<close> other messages. When the stored history had more
  than \<open>n + 1\<close> messages, it holds at most \<open>n\<close> other messages and the system
  messages stand before them. The session after the turn is the one the tool loop
  leaves; when the tool loop appended \<open>new\<close> to the history, every system message is
  still there and there are at most \<open>n + 1\<close> other messages besides those of \<open>new\<close>.
  The agent \<open>a\<close> is arbitrary, so this holds at every turn of a conversation.
\<close>

theorem run_with_tools_history:
  assumes size: "memory_size a = Some n" and pos: "0 < n"
    and turn: "run_with_tools toolloop a prompt max_steps kw w = (r, a', w')"
  shows "filter is_system (h (chat (prune_history a))) = filter is_system (h (chat a)) \<and>
         length (filter not_system (h (chat (prune_history a)))) \<le> nat n + 1 \<and>
         (n + 1 < int (length (h (chat a))) \<longrightarrow>
            length (filter not_system (h (chat (prune_history a)))) \<le> nat n \<and>
            h (chat (prune_history a))
              = filter is_system (h (chat (prune_history a)))
                  @ filter not_system (h (chat (prune_history a)))) \<and>
         chat a' = fst (snd (toolloop (chat (prune_history a)) prompt max_steps kw w)) \<and>
         (\<forall>new. h (chat a') = h (chat (prune_history a)) @ new \<longrightarrow>
            filter is_system (h (chat a')) = filter is_system (h (chat a)) @ filter is_system new \<and>
            length (filter not_system (h (chat a')))
              \<le> nat n + 1 + length (filter not_system new))"
proof -
  let ?p = "h (chat (prune_history a))"
  have hist: "?p = (if n + 1 < int (length (h (chat a)))
                    then trim_spec (nat n) (h (chat a)) else h (chat a))"
    using size pos by (simp add: prune_history_pos trim_spec_def last_n_drop)
  have sys: "filter is_system ?p = filter is_system (h (chat a))"
    by (simp add: hist filter_system_trim_spec)
  have fired: "length (filter not_system ?p) \<le> nat n \<and>
               ?p = filter is_system ?p @ filter not_system ?p"
    if "n + 1 < int (length (h (chat a)))"
  proof -
    from that hist have eq: "?p = trim_spec (nat n) (h (chat a))" by simp
    have "filter is_system ?p @ filter not_system ?p
            = filter is_system (h (chat a)) @ last_n (nat n) (filter not_system (h (chat a)))"
      by (simp only: eq filter_system_trim_spec filter_others_trim_spec)
    then have "filter is_system ?p @ filter not_system ?p = ?p"
      by (simp only: eq trim_spec_def)
    moreover have "length (filter not_system ?p) \<le> nat n"
      by (simp add: eq filter_others_trim_spec length_last_n)
    ultimately show ?thesis by simp
  qed
  have bound: "length (filter not_system ?p) \<le> nat n + 1"
  proof (cases "n + 1 < int (length (h (chat a)))")
    case True
    with fired show ?thesis by simp
  next
    case False
    with hist have "?p = h (chat a)" by simp
    then have "length (filter not_system ?p) \<le> length (h (chat a))"
      by simp
    also from False pos have "\<dots> \<le> nat n + 1"
      by linarith
    finally show ?thesis .
  qed
  have after: "chat a' = fst (snd (toolloop (chat (prune_history a)) prompt max_steps kw w))"
    using turn by (auto simp add: run_with_tools_def Let_def split: prod.splits sum.splits)
  have appended: "filter is_system (h (chat a')) = filter is_system (h (chat a)) @ filter is_system new \<and>
            length (filter not_system (h (chat a')))
              \<le> nat n + 1 + length (filter not_system new)"
    if "h (chat a') = ?p @ new" for new
    using that sys bound by simp
  from sys bound fired after appended show ?thesis by blast
qed

theorem run_with_tools_history_witness:
  "memory_size (demo_agent (Some 2) demo_history) = Some 2 \<and>
   2 + 1 < int (length (h (chat (demo_agent (Some 2) demo_history)))) \<and>
   h (chat (prune_history (demo_agent (Some 2) demo_history)))
     = [system_msg ''s1'', system_msg ''s2'', user_msg ''q2'', assistant_msg ''a2''] \<and>
   h (chat (fst (snd (run_with_tools echo_toolloop (demo_agent (Some 2) demo_history) ''hi'' 5 [] ()))))
     = [system_msg ''s1'', system_msg ''s2'', user_msg ''q2'', assistant_msg ''a2'',
        user_msg ''hi'', assistant_msg ''re: hi''] \<and>
   length (filter not_system
     (h (chat (fst (snd (run_with_tools echo_toolloop (demo_agent (Some 2) demo_history) ''hi'' 5 [] ()))))))
     \<le> nat 2 + 1 + length (filter not_system [user_msg ''hi'', assistant_msg ''re: hi''])"
  using run_with_tools_history [of "demo_agent (Some 2) demo_history" 2 echo_toolloop "''hi''" 5 "[]" "()"
      "fst (run_with_tools echo_toolloop (demo_agent (Some 2) demo_history) ''hi'' 5 [] ())"
      "fst (snd (run_with_tools echo_toolloop (demo_agent (Some 2) demo_history) ''hi'' 5 [] ()))"
      "snd (snd (run_with_tools echo_toolloop (demo_agent (Some 2) demo_history) ''hi'' 5 [] ()))"]
  by (simp add: run_with_tools_def prune_history_def slice_from_def echo_toolloop_def demo_defs)

section \<open>Construction of an agent\<close>

text \<open>
  Claim C6. Constructing an agent with a model that is not in the registry fails: the
  constructor raises the \<open>ValueError\<close> of \<open>__post_init__\<close> (the specification's
  \<open>InvalidModelError\<close>), and nothing catches it, so it is the outcome of the
  construction. With a registered model the construction returns the agent, with the
  fields as given and a fresh session.
\<close>

theorem Agent_model_check:
  "(m \<notin> set models \<longrightarrow> Agent models r m ts sys ms = Inl (ValueError m models)) \<and>
   (m \<in> set models \<longrightarrow>
      (\<exists>a. Agent models r m ts sys ms = Inr a \<and> role a = r \<and> model a = m \<and> tools a = ts \<and>
           system a = sys \<and> memory_size a = ms \<and> chat_model (chat a) = m \<and> h (chat a) = []))"
  by (simp add: Agent_def Chat_def)

theorem Agent_model_check_witness:
  "''bad-model'' \<notin> set [''gpt-4o'', ''gpt-4o-mini''] \<and>
   Agent [''gpt-4o'', ''gpt-4o-mini''] ''tester'' ''bad-model'' [] None (Some 10)
     = Inl (ValueError ''bad-model'' [''gpt-4o'', ''gpt-4o-mini'']) \<and>
   ''gpt-4o'' \<in> set [''gpt-4o'', ''gpt-4o-mini''] \<and>
   Agent [''gpt-4o'', ''gpt-4o-mini''] ''tester'' ''gpt-4o'' [] None (Some 10)
     = Inr (demo_agent (Some 10) [])"
  using Agent_model_check [of "''bad-model''" "[''gpt-4o'', ''gpt-4o-mini'']" "''tester''" "[]" None "Some 10"]
    Agent_model_check [of "''gpt-4o''" "[''gpt-4o'', ''gpt-4o-mini'']" "''tester''" "[]" None "Some 10"]
  by (simp add: Agent_def Chat_def demo_agent_def str_or_def)

text \<open>
  Claim C10. With a registered model, an agent constructed with the empty string as
  \<open>system\<close> has the derived prompt \<open>You are a {role}.\<close> as its active system prompt,
  as has one constructed without \<open>system\<close>; whatever \<open>system\<close> is, the active system
  prompt of a constructed agent is not empty.
\<close>

theorem Agent_falsy_system:
  assumes "m \<in> set models"
  shows "(\<exists>a. Agent models r m ts (Some []) ms = Inr a \<and> sp (chat a) = ''You are a '' @ r @ ''.'') \<and>
         (\<exists>a. Agent models r m ts None ms = Inr a \<and> sp (chat a) = ''You are a '' @ r @ ''.'') \<and>
         (\<forall>sys a. Agent models r m ts sys ms = Inr a \<longrightarrow> sp (chat a) \<noteq> [])"
  using assms by (auto simp add: Agent_def Chat_def str_or_def split: option.splits)

theorem Agent_falsy_system_witness:
  "''gpt-4o'' \<in> set [''gpt-4o'', ''gpt-4o-mini''] \<and>
   sp (chat (projr (Agent [''gpt-4o'', ''gpt-4o-mini''] ''tester'' ''gpt-4o'' [] (Some []) (Some 10))))
     = ''You are a tester.''"
  using Agent_falsy_system [of "''gpt-4o''" "[''gpt-4o'', ''gpt-4o-mini'']" "''tester''" "[]" "Some 10"]
  by (simp add: Agent_def Chat_def str_or_def)

section \<open>Running a chain\<close>

text \<open>
  Claim C4. A chain without agents returns its input, and leaves \<open>steps\<close>, the store
  and the world as they were, whatever \<open>steps\<close> held before.
\<close>

theorem chain_call_empty:
  "chain_call toolloop (c\<lparr>agents := []\<rparr>) x s w = (Inr x, c\<lparr>agents := []\<rparr>, s, w)"
  by (simp add: chain_call_def)

text \<open>
  Claim C8. \<open>validate\<close> is true exactly when every validator of the chain is true of the
  output. The validators play no part in a run: a run of the chain with other validators
  gives the same outcome, steps, store and world.
\<close>

theorem validate_conjunction:
  "(validate c step_output step_num \<longleftrightarrow> (\<forall>v \<in> set (validators c). v step_output)) \<and>
   chain_call toolloop (c\<lparr>validators := vs\<rparr>) x s w
     = (case chain_call toolloop c x s w of
          (r, c', s', w') \<Rightarrow> (r, c'\<lparr>validators := vs\<rparr>, s', w'))"
  by (simp add: validate_def chain_call_def list_all_iff split: prod.splits)

theorem validate_conjunction_witness:
  "validate (Chain ''demo'' [] [] ''text'' ''text'' [non_empty, short]) ''abc'' 0 \<and>
   non_empty ''abc'' \<and> short ''abc'' \<and>
   \<not> validate (Chain ''demo'' [] [] ''text'' ''text'' [non_empty, short]) ''abcdef'' 0 \<and>
   \<not> short ''abcdef''"
  using validate_conjunction [where c = "Chain ''demo'' [] [] ''text'' ''text'' [non_empty, short]"
      and step_output = "''abc''" and step_num = 0, THEN conjunct1]
    validate_conjunction [where c = "Chain ''demo'' [] [] ''text'' ''text'' [non_empty, short]"
      and step_output = "''abcdef''" and step_num = 0, THEN conjunct1]
  by (simp add: Chain_def non_empty_def short_def)


lemma linked_length_nth:
  "linked x es r \<Longrightarrow>
     (es \<noteq> [] \<longrightarrow> entry_input (es ! 0) = x \<and> entry_output (es ! (length es - 1)) = r) \<and>
     (\<forall>i. Suc i < length es \<longrightarrow> entry_output (es ! i) = entry_input (es ! Suc i))"
proof (induction es arbitrary: x)
  case Nil
  then show ?case by simp
next
  case (Cons e es)
  then have first: "entry_input e = x" and rest: "linked (entry_output e) es r"
    by simp_all
  note ih = Cons.IH [OF rest]
  show ?case
  proof (cases es)
    case Nil
    with first rest show ?thesis by simp
  next
    case (Cons e' es')
    have "entry_output ((e # es) ! i) = entry_input ((e # es) ! Suc i)"
      if "Suc i < length (e # es)" for i
    proof (cases i)
      case 0
      with ih Cons show ?thesis by simp
    next
      case (Suc j)
      with that ih show ?thesis by simp
    qed
    moreover have "entry_output ((e # es) ! (length (e # es) - 1)) = r"
      using ih Cons by simp
    ultimately show ?thesis using first by simp
  qed
qed

lemma chain_loop_returns:
  "chain_loop toolloop as x sts s w = (Inr r, sts', s', w') \<Longrightarrow>
     \<exists>new. sts' = sts @ new \<and> map entry_agent new = as \<and> linked x new r"
proof (induction as arbitrary: x sts s w)
  case Nil
  then show ?case by simp
next
  case (Cons a as)
  from Cons.prems obtain out a' w1
    where rest: "chain_loop toolloop as out
                   (sts @ [\<lparr>entry_agent = a, entry_input = x, entry_output = out\<rparr>])
                   (s(a := a')) w1 = (Inr r, sts', s', w')"
    by (auto split: prod.splits sum.splits)
  let ?e = "\<lparr>entry_agent = a, entry_input = x, entry_output = out\<rparr>"
  from Cons.IH [OF rest] obtain new
    where "sts' = (sts @ [?e]) @ new" and "map entry_agent new = as" and "linked out new r"
    by blast
  then have "sts' = sts @ (?e # new) \<and> map entry_agent (?e # new) = a # as \<and>
             linked x (?e # new) r"
    by simp
  then show ?case by (rule exI [where x = "?e # new"])
qed

lemma chain_loop_never_raises:
  assumes "\<forall>c p k kw w. \<exists>resp. fst (toolloop c p k kw w) = Inr resp"
  shows "\<exists>r. fst (chain_loop toolloop as x sts s w) = Inr r"
proof (induction as arbitrary: x sts s w)
  case Nil
  show ?case by simp
next
  case (Cons a as)
  from assms obtain resp
    where "fst (toolloop (chat (prune_history (s a))) x 5 [] w) = Inr resp"
    by blast
  then obtain c' w1 where "toolloop (chat (prune_history (s a))) x 5 [] w = (Inr resp, c', w1)"
    by (cases "toolloop (chat (prune_history (s a))) x 5 [] w") auto
  then have "run_with_tools toolloop (s a) x 5 [] w
               = (Inr (contents resp), (prune_history (s a))\<lparr>chat := c'\<rparr>, w1)"
    by (simp add: run_with_tools_def)
  with Cons.IH show ?case by simp
qed

text \<open>
  Claim C3. Take a chain with a non-empty list of agents and no steps yet. If the tool
  loop never raises, the call returns. Whenever the call returns \<open>r\<close>, the chain has one
  step for each agent, in order; the first step's input is the input of the call, each
  step's output is the next step's input, and \<open>r\<close> is the last step's output.
\<close>

theorem chain_call_steps:
  assumes "ags \<noteq> []"
  shows "((\<forall>c p k kw w. \<exists>resp. fst (toolloop c p k kw w) = Inr resp) \<longrightarrow>
            (\<exists>r. fst (chain_call toolloop (Chain nm ags [] ity oty vs) x s w) = Inr r)) \<and>
         (\<forall>r c' s' w'.
            chain_call toolloop (Chain nm ags [] ity oty vs) x s w = (Inr r, c', s', w') \<longrightarrow>
              length (steps c') = length ags \<and>
              map entry_agent (steps c') = ags \<and>
              entry_input (steps c' ! 0) = x \<and>
              (\<forall>i. Suc i < length (steps c') \<longrightarrow>
                 entry_output (steps c' ! i) = entry_input (steps c' ! Suc i)) \<and>
              r = entry_output (steps c' ! (length (steps c') - 1)))"
proof (intro conjI allI impI)
  assume "\<forall>c p k kw w. \<exists>resp. fst (toolloop c p k kw w) = Inr resp"
  from chain_loop_never_raises [OF this, of ags x "[]" s w]
  show "\<exists>r. fst (chain_call toolloop (Chain nm ags [] ity oty vs) x s w) = Inr r"
    by (auto simp add: chain_call_def Chain_def split: prod.splits)
next
  fix r c' s' w'
  assume call: "chain_call toolloop (Chain nm ags [] ity oty vs) x s w = (Inr r, c', s', w')"
  then have "chain_loop toolloop ags x [] s w = (Inr r, steps c', s', w')"
    by (auto simp add: chain_call_def Chain_def split: prod.splits)
  from chain_loop_returns [OF this]
  have agents: "map entry_agent (steps c') = ags" and link: "linked x (steps c') r"
    by simp_all
  from agents have len: "length (steps c') = length ags"
    by (metis length_map)
  with assms have ne: "steps c' \<noteq> []" by auto
  note facts = linked_length_nth [OF link]
  show "length (steps c') = length ags" by (rule len)
  show "map entry_agent (steps c') = ags" by (rule agents)
  show "entry_input (steps c' ! 0) = x" using facts ne by simp
  show "r = entry_output (steps c' ! (length (steps c') - 1))" using facts ne by simp
  show "entry_output (steps c' ! i) = entry_input (steps c' ! Suc i)"
    if "Suc i < length (steps c')" for i
    using facts that by simp
qed

lemmas chain_demo_defs = chain_call_def Chain_def run_with_tools_def prune_history_def
  echo_toolloop_def moody_toolloop_def demo_store_def failing_agent_def demo_agent_def Chat_def
  user_msg_def assistant_msg_def

text \<open>
  Claim C5. In a chain of two agents without steps yet, if the first agent's turn returns
  \<open>out\<close> and the second agent's turn, run on \<open>out\<close> in the store the first turn left,
  raises \<open>e\<close>, then the call raises \<open>e\<close>, and \<open>steps\<close> holds the first agent's
  entry and nothing else. The effects of both turns on the store and the world stay.
\<close>

theorem chain_call_second_raises:
  assumes "run_with_tools toolloop (s a1) x 5 [] w = (Inr out, ag1, w1)"
    and "run_with_tools toolloop ((s(a1 := ag1)) a2) out 5 [] w1 = (Inl e, ag2, w2)"
  shows "chain_call toolloop (Chain nm [a1, a2] [] ity oty vs) x s w
           = (Inl e,
              (Chain nm [a1, a2] [] ity oty vs)
                \<lparr>steps := [\<lparr>entry_agent = a1, entry_input = x, entry_output = out\<rparr>]\<rparr>,
              (s(a1 := ag1))(a2 := ag2), w2)"
  using assms by (simp add: chain_call_def Chain_def)


theorem chain_call_steps_witness:
  "[0, 2] \<noteq> ([] :: ref list) \<and>
   fst (chain_call echo_toolloop (Chain ''demo'' [0, 2] [] ''text'' ''text'' []) ''hi'' demo_store ())
     = Inr ''re: re: hi'' \<and>
   steps (fst (snd (chain_call echo_toolloop (Chain ''demo'' [0, 2] [] ''text'' ''text'' [])
                      ''hi'' demo_store ())))
     = [\<lparr>entry_agent = 0, entry_input = ''hi'', entry_output = ''re: hi''\<rparr>,
        \<lparr>entry_agent = 2, entry_input = ''re: hi'', entry_output = ''re: re: hi''\<rparr>]"
  using chain_call_steps [of "[0, 2]" echo_toolloop "''demo''" "''text''" "''text''" "[]" "''hi''"
      demo_store "()"]
  by (simp add: chain_demo_defs)


theorem chain_call_second_raises_witness:
  "fst (run_with_tools moody_toolloop (demo_store 0) ''hi'' 5 [] ()) = Inr ''re: hi'' \<and>
   fst (run_with_tools moody_toolloop (demo_store 1) ''re: hi'' 5 [] ())
     = Inl (ToolLoopError ''re: hi'') \<and>
   fst (chain_call moody_toolloop (Chain ''demo'' [0, 1] [] ''text'' ''text'' []) ''hi'' demo_store ())
     = Inl (ToolLoopError ''re: hi'') \<and>
   steps (fst (snd (chain_call moody_toolloop (Chain ''demo'' [0, 1] [] ''text'' ''text'' [])
                      ''hi'' demo_store ())))
     = [\<lparr>entry_agent = 0, entry_input = ''hi'', entry_output = ''re: hi''\<rparr>]"
  using chain_call_second_raises [of moody_toolloop demo_store 0 "''hi''" "()" "''re: hi''"
      "fst (snd (run_with_tools moody_toolloop (demo_store 0) ''hi'' 5 [] ()))" "()"
      1 "ToolLoopError ''re: hi''"
      "fst (snd (run_with_tools moody_toolloop (demo_store 1) ''re: hi'' 5 [] ()))" "()"
      "''demo''" "''text''" "''text''" "[]"]
  by (simp add: chain_demo_defs)

section \<open>The extractor\<close>






















end
